theory Spec2Isabelle
  imports Main "HOL-Library.Char_ord" "HOL-Library.List_Lexorder" "HOL-Library.Sublist"
begin

section \<open>ManipuLogic: well-formedness, evaluation and validity of propositional formulas\<close>

text \<open>
  A shallow embedding of the functions of \<^verbatim>\<open>non_work_projects/manipulogic.ipynb\<close>:
  \<^verbatim>\<open>is_well_formed\<close>, \<^verbatim>\<open>tokenize\<close>, \<^verbatim>\<open>evaluate_statement\<close> (with its inner
  \<^verbatim>\<open>eval_tokens\<close>), \<^verbatim>\<open>generate_truth_table\<close>, \<^verbatim>\<open>check_validity\<close> and
  \<^verbatim>\<open>check_user_argument\<close>.

  Python strings are \<^typ>\<open>string\<close>; a token, one element of the list \<^verbatim>\<open>re.findall\<close>
  returns, is a string too (always of length one). A Python exception is a value
  \<open>Inl e\<close> of the result type; a returned value is \<open>Inr v\<close>. A Python list used as a
  stack (\<^verbatim>\<open>append\<close>/\<^verbatim>\<open>pop\<close> at the end) is a HOL list whose head is the top of the
  stack; lists that are only appended to and read in order (\<^verbatim>\<open>output\<close>) keep their
  order. The two \<^verbatim>\<open>print\<close> calls of \<^verbatim>\<open>is_well_formed\<close> write to standard output only and
  are left out.
\<close>

subsection \<open>Errors and tokens\<close>

datatype error = IndexError | KeyError

type_synonym token = string

text \<open>The character classes of the three regular expressions
  \<^verbatim>\<open>[A-Z]\<close>, \<^verbatim>\<open>[&+>^=]\<close> and \<^verbatim>\<open>[A-Z]|[&+>^=]|[()]|~\<close>.\<close>

definition variable_char :: "char \<Rightarrow> bool" where
  "variable_char c \<longleftrightarrow> CHR ''A'' \<le> c \<and> c \<le> CHR ''Z''"

definition operator_char :: "char \<Rightarrow> bool" where
  "operator_char c \<longleftrightarrow> c \<in> set ''&+>^=''"

definition valid_char :: "char \<Rightarrow> bool" where
  "valid_char c \<longleftrightarrow> variable_char c \<or> operator_char c \<or> c \<in> set ''()'' \<or> c = CHR ''~''"

text \<open>\<^verbatim>\<open>re.fullmatch(variable_pattern, t)\<close> and \<^verbatim>\<open>re.fullmatch(operator_pattern, t)\<close>,
  read as booleans: the whole string is one character of the class.\<close>

fun fullmatch_variable :: "string \<Rightarrow> bool" where
  "fullmatch_variable [c] = variable_char c"
| "fullmatch_variable _ = False"

fun fullmatch_operator :: "string \<Rightarrow> bool" where
  "fullmatch_operator [c] = operator_char c"
| "fullmatch_operator _ = False"

text \<open>\<^verbatim>\<open>re.findall(valid_pattern, statement)\<close>: every match is one character, so the
  result lists the valid characters in order, each as a string; everything else is skipped.\<close>

definition tokenize :: "string \<Rightarrow> token list" where
  "tokenize statement = map (\<lambda>c. [c]) (filter valid_char statement)"

text \<open>\<^verbatim>\<open>xs[i]\<close> for a non-negative index: IndexError past the end.\<close>

definition index :: "'a list \<Rightarrow> nat \<Rightarrow> error + 'a" where
  "index xs i = (if i < length xs then Inr (xs ! i) else Inl IndexError)"

subsection \<open>\<^verbatim>\<open>is_well_formed\<close>\<close>

text \<open>
  One iteration of the loop \<^verbatim>\<open>for i, token in enumerate(tokens)\<close>, before
  \<^verbatim>\<open>last_token = token\<close>. The result is \<open>Inl e\<close> when the iteration raises,
  \<open>Inr None\<close> when it executes \<^verbatim>\<open>return False\<close>, and \<open>Inr (Some stack')\<close> when it
  falls through to the assignment with the parenthesis stack \<open>stack'\<close>.
  Python's \<^verbatim>\<open>and\<close> evaluates left to right and stops early, so \<^verbatim>\<open>tokens[i+1]\<close> in
  the negation case is read only when the two conditions before it hold; \<^verbatim>\<open>x not in s\<close>
  on strings is the substring test.
\<close>

fun scan_token :: "token list \<Rightarrow> nat \<Rightarrow> token \<Rightarrow> token \<Rightarrow> token list \<Rightarrow> error + token list option" where
  "scan_token tokens i token last_token stack =
    (if token = ''('' then Inr (Some (token # stack))
     else if token = '')'' then
       (if stack = [] then Inr None
        else if last_token = ''('' then Inr None
        else if i + 1 < length tokens then
          (if sublist (tokens ! (i + 1)) ''&+>^=)'' then Inr (Some (tl stack)) else Inr None)
        else Inr (Some (tl stack)))
     else if token = ''~'' then
       (if fullmatch_operator last_token then Inr (Some stack)
        else if i = 0 then Inr (Some stack)
        else (case index tokens (i + 1) of
                Inl e \<Rightarrow> Inl e
              | Inr next_token \<Rightarrow>
                  if next_token \<noteq> ''('' \<and> last_token \<noteq> ''~'' \<and> last_token \<noteq> ''(''
                  then Inr None else Inr (Some stack)))
     else if fullmatch_variable token then
       (if fullmatch_variable last_token then Inr None else Inr (Some stack))
     else if fullmatch_operator token then
       (if fullmatch_operator last_token then Inr None
        else if last_token = ''('' then Inr None
        else Inr (Some stack))
     else Inr (Some stack))"

text \<open>The loop itself, over the tokens from position \<open>i\<close> on, and the test
  \<^verbatim>\<open>if stack: return False\<close> with the final \<^verbatim>\<open>return True\<close> after it.\<close>

fun scan :: "token list \<Rightarrow> nat \<Rightarrow> token list \<Rightarrow> token \<Rightarrow> token list \<Rightarrow> error + bool" where
  "scan tokens i [] last_token stack = Inr (stack = [])"
| "scan tokens i (token # rest) last_token stack =
    (case scan_token tokens i token last_token stack of
       Inl e \<Rightarrow> Inl e
     | Inr None \<Rightarrow> Inr False
     | Inr (Some stack') \<Rightarrow> scan tokens (i + 1) rest token stack')"

definition is_well_formed :: "string \<Rightarrow> error + bool" where
  "is_well_formed statement =
    (let tokens = tokenize statement in
     if concat tokens \<noteq> statement then Inr False
     else if length tokens < 1 then Inr False
     else if \<not> (fullmatch_variable (tokens ! 0) \<or> tokens ! 0 = ''('' \<or> tokens ! 0 = ''~'') then Inr False
     else if \<not> (fullmatch_variable (last tokens) \<or> last tokens = '')'') then Inr False
     else scan tokens 0 tokens [] [])"

subsection \<open>\<^verbatim>\<open>evaluate_statement\<close>\<close>

text \<open>The dictionary \<^verbatim>\<open>precedence\<close>; \<^verbatim>\<open>precedence[k]\<close> raises KeyError for a key it
  does not hold.\<close>

definition precedence :: "token \<rightharpoonup> int" where
  "precedence = map_of
     [(''~'', 3), (''&'', 2), (''+'', 1), (''>'', 0), (''^'', 0), (''='', 0), (''('', -1), ('')'', -1)]"

text \<open>\<^verbatim>\<open>while operators and operators[-1] != '(': output.append(operators.pop())\<close>,
  returning the output and the operator stack the loop leaves.\<close>

fun pop_to_paren :: "token list \<Rightarrow> token list \<Rightarrow> token list \<times> token list" where
  "pop_to_paren output [] = (output, [])"
| "pop_to_paren output (tos # operators) =
    (if tos \<noteq> ''('' then pop_to_paren (output @ [tos]) operators
     else (output, tos # operators))"

text \<open>\<^verbatim>\<open>while (operators and precedence[operators[-1]] >= precedence[token]):
  output.append(operators.pop())\<close>.\<close>

fun pop_higher :: "token \<Rightarrow> token list \<Rightarrow> token list \<Rightarrow> error + token list \<times> token list" where
  "pop_higher token output [] = Inr (output, [])"
| "pop_higher token output (tos # operators) =
    (case precedence tos of
       None \<Rightarrow> Inl KeyError
     | Some p_top \<Rightarrow>
        (case precedence token of
           None \<Rightarrow> Inl KeyError
         | Some p_token \<Rightarrow>
            if p_top \<ge> p_token then pop_higher token (output @ [tos]) operators
            else Inr (output, tos # operators)))"

text \<open>\<^verbatim>\<open>while operators: output.append(operators.pop())\<close>.\<close>

fun pop_all :: "token list \<Rightarrow> token list \<Rightarrow> token list" where
  "pop_all output [] = output"
| "pop_all output (tos # operators) = pop_all (output @ [tos]) operators"

text \<open>The loop \<^verbatim>\<open>for token in tokens\<close> that reorders the tokens to postfix, followed by
  the loop that empties the operator stack. \<^verbatim>\<open>operators.pop()\<close> after the inner loop
  of the closing parenthesis raises IndexError on an empty stack.\<close>

fun to_postfix :: "token list \<Rightarrow> token list \<Rightarrow> token list \<Rightarrow> error + token list" where
  "to_postfix [] output operators = Inr (pop_all output operators)"
| "to_postfix (token # rest) output operators =
    (if fullmatch_variable token then to_postfix rest (output @ [token]) operators
     else if token = ''('' then to_postfix rest output (token # operators)
     else if token = '')'' then
       (case pop_to_paren output operators of
          (output', []) \<Rightarrow> Inl IndexError
        | (output', tos # operators') \<Rightarrow> to_postfix rest output' operators')
     else
       (case pop_higher token output operators of
          Inl e \<Rightarrow> Inl e
        | Inr (output', operators') \<Rightarrow> to_postfix rest output' (token # operators')))"

text \<open>The \<^verbatim>\<open>if\<close>/\<^verbatim>\<open>elif\<close> chain that pushes the value of a binary connective, with
  \<open>a\<close> the left and \<open>b\<close> the right operand. Python's \<^verbatim>\<open>not a or b\<close> is
  \<^verbatim>\<open>(not a) or b\<close>.\<close>

fun apply_operator :: "token \<Rightarrow> bool \<Rightarrow> bool \<Rightarrow> bool list \<Rightarrow> bool list" where
  "apply_operator token a b stack =
    (if token = ''&'' then (a \<and> b) # stack
     else if token = ''+'' then (a \<or> b) # stack
     else if token = ''>'' then (\<not> a \<or> b) # stack
     else if token = ''^'' then (a \<noteq> b) # stack
     else if token = ''='' then (a = b) # stack
     else stack)"

text \<open>The inner function \<^verbatim>\<open>eval_tokens\<close>: the loop over the postfix tokens with the
  value stack, and the final \<^verbatim>\<open>return stack.pop()\<close>. Every \<^verbatim>\<open>stack.pop()\<close> raises
  IndexError on an empty stack. A token that is neither a key of \<^verbatim>\<open>truth_values\<close>,
  nor \<^verbatim>\<open>~\<close>, nor a binary connective is passed over.\<close>

fun eval_tokens :: "(token \<rightharpoonup> bool) \<Rightarrow> token list \<Rightarrow> bool list \<Rightarrow> error + bool" where
  "eval_tokens truth_values [] stack =
    (case stack of [] \<Rightarrow> Inl IndexError | v # _ \<Rightarrow> Inr v)"
| "eval_tokens truth_values (token # rest) stack =
    (case truth_values token of
       Some v \<Rightarrow> eval_tokens truth_values rest (v # stack)
     | None \<Rightarrow>
        if token = ''~'' then
          (case stack of
             [] \<Rightarrow> Inl IndexError
           | v # stack' \<Rightarrow> eval_tokens truth_values rest ((\<not> v) # stack'))
        else if token \<in> set [''&'', ''+'', ''>'', ''^'', ''=''] then
          (case stack of
             [] \<Rightarrow> Inl IndexError
           | b # stack' \<Rightarrow>
              (case stack' of
                 [] \<Rightarrow> Inl IndexError
               | a # stack'' \<Rightarrow> eval_tokens truth_values rest (apply_operator token a b stack'')))
        else eval_tokens truth_values rest stack)"

definition evaluate_statement :: "string \<Rightarrow> (token \<rightharpoonup> bool) \<Rightarrow> error + bool" where
  "evaluate_statement statement truth_values =
    (case to_postfix (tokenize statement) [] [] of
       Inl e \<Rightarrow> Inl e
     | Inr output \<Rightarrow> eval_tokens truth_values output [])"

subsection \<open>\<^verbatim>\<open>generate_truth_table\<close> and \<^verbatim>\<open>check_validity\<close>\<close>

text \<open>\<^verbatim>\<open>itertools.product([True, False], repeat=n)\<close>: all tuples of length \<open>n\<close>, the
  leftmost component varying slowest, \<^verbatim>\<open>True\<close> before \<^verbatim>\<open>False\<close>.\<close>

fun product_bools :: "nat \<Rightarrow> bool list list" where
  "product_bools 0 = [[]]"
| "product_bools (Suc n) =
    map ((#) True) (product_bools n) @ map ((#) False) (product_bools n)"

text \<open>\<^verbatim>\<open>dict(pairs)\<close>: a later pair overwrites an earlier one with the same key.\<close>

definition dict :: "('k \<times> 'v) list \<Rightarrow> ('k \<rightharpoonup> 'v)" where
  "dict pairs = map_of (rev pairs)"

definition generate_truth_table :: "token list \<Rightarrow> (token \<rightharpoonup> bool) list" where
  "generate_truth_table variables =
    map (\<lambda>values. dict (zip variables values)) (product_bools (length variables))"

text \<open>\<^verbatim>\<open>all(evaluate_statement(p, truth_values) for p in premises)\<close>: the premises are
  evaluated in order until one is false; an exception raised on the way propagates.\<close>

fun all_premises :: "string list \<Rightarrow> (token \<rightharpoonup> bool) \<Rightarrow> error + bool" where
  "all_premises [] truth_values = Inr True"
| "all_premises (p # premises) truth_values =
    (case evaluate_statement p truth_values of
       Inl e \<Rightarrow> Inl e
     | Inr v \<Rightarrow> if v then all_premises premises truth_values else Inr False)"

text \<open>The loop \<^verbatim>\<open>for truth_values in truth_table\<close> of \<^verbatim>\<open>check_validity\<close> and the
  \<^verbatim>\<open>return True\<close> after it. The conclusion is evaluated on every row, whatever the
  premises gave.\<close>

fun check_rows :: "string list \<Rightarrow> string \<Rightarrow> (token \<rightharpoonup> bool) list \<Rightarrow> error + bool" where
  "check_rows premises conclusion [] = Inr True"
| "check_rows premises conclusion (truth_values # truth_table) =
    (case all_premises premises truth_values of
       Inl e \<Rightarrow> Inl e
     | Inr premises_truth \<Rightarrow>
        (case evaluate_statement conclusion truth_values of
           Inl e \<Rightarrow> Inl e
         | Inr conclusion_truth \<Rightarrow>
            if premises_truth \<and> \<not> conclusion_truth then Inr False
            else check_rows premises conclusion truth_table))"

text \<open>\<^verbatim>\<open>sorted(set(...))\<close> is the sorted list of the distinct variable tokens.\<close>

definition check_validity :: "string list \<Rightarrow> string \<Rightarrow> error + bool" where
  "check_validity premises conclusion =
    (let all_statements = premises @ [conclusion];
         variables = sort (remdups (filter fullmatch_variable (concat (map tokenize all_statements))));
         truth_table = generate_truth_table variables
     in check_rows premises conclusion truth_table)"

subsection \<open>\<^verbatim>\<open>check_user_argument\<close>\<close>

text \<open>The loop that collects one line per premise that is not well-formed.\<close>

fun collect_not_well_formed :: "string list \<Rightarrow> string \<Rightarrow> error + string" where
  "collect_not_well_formed [] not_well_formed_premises = Inr not_well_formed_premises"
| "collect_not_well_formed (premise # premises) not_well_formed_premises =
    (case is_well_formed premise of
       Inl e \<Rightarrow> Inl e
     | Inr well_formed \<Rightarrow>
        if \<not> well_formed then
          collect_not_well_formed premises
            (not_well_formed_premises @ ''Premise '' @ premise @ '' is not well-formed.'' @ [CHR 0x0A])
        else collect_not_well_formed premises not_well_formed_premises)"

definition check_user_argument :: "string list \<Rightarrow> string \<Rightarrow> error + bool \<times> string" where
  "check_user_argument premises conclusion =
    (case collect_not_well_formed premises [] of
       Inl e \<Rightarrow> Inl e
     | Inr not_well_formed_premises \<Rightarrow>
        if not_well_formed_premises \<noteq> [] then Inr (False, not_well_formed_premises)
        else
          (case is_well_formed conclusion of
             Inl e \<Rightarrow> Inl e
           | Inr well_formed \<Rightarrow>
              if \<not> well_formed then
                Inr (False, ''Conclusion '' @ conclusion @ '' is not well-formed.'' @ [CHR 0x0A])
              else
                (case check_validity premises conclusion of
                   Inl e \<Rightarrow> Inl e
                 | Inr argument_valid \<Rightarrow>
                    Inr (argument_valid,
                         ''The inputted argument is'' @ (if argument_valid then [] else '' not'')
                           @ '' valid.''))))"

subsection \<open>The reference grammar\<close>

text \<open>
  The language the specification names as the meaning of well-formedness, written from its
  words and not from the code: a formula is a single uppercase-letter variable, a negation
  \<^verbatim>\<open>~\<close> in front of a formula, two formulas joined by one of the five binary
  connectives, or a formula between a pair of parentheses.
\<close>

inductive reference_formula :: "string \<Rightarrow> bool" where
  Variable: "variable_char c \<Longrightarrow> reference_formula [c]"
| Negation: "reference_formula s \<Longrightarrow> reference_formula (CHR ''~'' # s)"
| Binary: "reference_formula l \<Longrightarrow> operator_char c \<Longrightarrow> reference_formula r \<Longrightarrow>
     reference_formula (l @ c # r)"
| Group: "reference_formula s \<Longrightarrow> reference_formula (CHR ''('' # s @ '')'')"

subsection \<open>Placement of a negation\<close>

text \<open>
  The placements the specification allows for a negation, written from its words: at the
  very start of the formula, immediately after a binary operator, an opening parenthesis
  or another negation, or immediately before an opening parenthesis.
\<close>

definition negation_placed :: "string \<Rightarrow> nat \<Rightarrow> bool" where
  "negation_placed statement i \<longleftrightarrow>
     i = 0 \<or> operator_char (statement ! (i - 1)) \<or> statement ! (i - 1) = CHR ''(''
     \<or> statement ! (i - 1) = CHR ''~''
     \<or> (i + 1 < length statement \<and> statement ! (i + 1) = CHR ''('')"

subsection \<open>The rules for the other tokens\<close>

text \<open>
  The rest of the specification's well-formedness rules, written from its words by
  position in the statement and not from the code. \<open>depth\<close> counts the opening
  parentheses that are pending. An opening parenthesis has no condition. A closing
  parenthesis needs a pending opening one, must not directly follow an opening one, and a
  token after it must be a binary operator or another closing parenthesis. A variable must
  not directly follow a variable; a binary operator must not directly follow a binary
  operator or an opening parenthesis. \<open>other_rules\<close> adds that the statement is not empty
  and holds only valid characters, the boundary rule for its first and last token, and that
  no opening parenthesis is left pending. \<open>token_rule\<close> is the rule of the token at a
  position, the placement rule for a negation included, and \<open>previous_token\<close> is the value
  of \<^verbatim>\<open>last_token\<close> when the scan reaches a position.
\<close>

definition depth :: "string \<Rightarrow> int" where
  "depth s = int (count_list s CHR ''('') - int (count_list s CHR '')'')"

definition other_token_rule :: "string \<Rightarrow> nat \<Rightarrow> bool" where
  "other_token_rule statement i =
    (if statement ! i = CHR ''('' then True
     else if statement ! i = CHR '')'' then
       0 < depth (take i statement) \<and> \<not> (0 < i \<and> statement ! (i - 1) = CHR ''('') \<and>
       (length statement \<le> i + 1 \<or> operator_char (statement ! (i + 1))
          \<or> statement ! (i + 1) = CHR '')'')
     else if variable_char (statement ! i) then
       \<not> (0 < i \<and> variable_char (statement ! (i - 1)))
     else if operator_char (statement ! i) then
       \<not> (0 < i \<and> (operator_char (statement ! (i - 1)) \<or> statement ! (i - 1) = CHR ''(''))
     else True)"

definition other_rules :: "string \<Rightarrow> bool" where
  "other_rules statement \<longleftrightarrow>
     statement \<noteq> [] \<and> list_all valid_char statement \<and>
     (variable_char (hd statement) \<or> hd statement = CHR ''('' \<or> hd statement = CHR ''~'') \<and>
     (variable_char (last statement) \<or> last statement = CHR '')'') \<and>
     list_all (\<lambda>i. statement ! i = CHR ''~'' \<or> other_token_rule statement i) [0..<length statement] \<and>
     depth statement = 0"

definition token_rule :: "string \<Rightarrow> nat \<Rightarrow> bool" where
  "token_rule statement i =
     (if statement ! i = CHR ''~'' then negation_placed statement i
      else other_token_rule statement i)"

definition previous_token :: "string \<Rightarrow> nat \<Rightarrow> token" where
  "previous_token statement i = (if i = 0 then [] else [statement ! (i - 1)])"

subsection \<open>Contexts of a formula inside a statement\<close>

text \<open>
  What the scan needs of the characters around a formula of the reference grammar to pass
  over it: before it the start of the statement, a binary operator, an opening parenthesis
  or a negation, with \<^verbatim>\<open>last_token\<close> set accordingly; after it the end of the statement, a
  binary operator or a closing parenthesis.
\<close>

definition left_context :: "string \<Rightarrow> token \<Rightarrow> bool" where
  "left_context pre last_token \<longleftrightarrow>
     (pre = [] \<and> last_token = []) \<or>
     (pre \<noteq> [] \<and> last_token = [last pre] \<and>
        (operator_char (last pre) \<or> last pre = CHR ''('' \<or> last pre = CHR ''~''))"

definition right_context :: "string \<Rightarrow> bool" where
  "right_context post \<longleftrightarrow> post = [] \<or> operator_char (hd post) \<or> hd post = CHR '')''"

section \<open>Character classes\<close>

declare scan_token.simps [simp del]

lemma variable_char_simps [simp]:
  "\<not> variable_char CHR ''~''" "\<not> variable_char CHR ''(''" "\<not> variable_char CHR '')''"
  "\<not> variable_char CHR ''&''" "\<not> variable_char CHR ''+''" "\<not> variable_char CHR ''>''"
  "\<not> variable_char CHR ''^''" "\<not> variable_char CHR ''=''"
  by (simp_all add: variable_char_def)

lemma operator_char_simps [simp]:
  "\<not> operator_char CHR ''~''" "\<not> operator_char CHR ''(''" "\<not> operator_char CHR '')''"
  "operator_char CHR ''&''" "operator_char CHR ''+''" "operator_char CHR ''>''"
  "operator_char CHR ''^''" "operator_char CHR ''=''"
  by (simp_all add: operator_char_def)

lemma variable_not_operator: "variable_char c \<Longrightarrow> \<not> operator_char c"
  by (auto simp: variable_char_def operator_char_def)

section \<open>Tokens of a statement of valid characters\<close>

lemma concat_singletons: "concat (map (\<lambda>c. [c]) xs) = xs"
  by (induction xs) auto

lemma concat_tokenize: "concat (tokenize statement) = filter valid_char statement"
  by (simp add: tokenize_def concat_singletons)

lemma tokenize_all_valid:
  "concat (tokenize statement) = statement \<Longrightarrow> tokenize statement = map (\<lambda>c. [c]) statement"
  by (simp add: concat_tokenize tokenize_def)

section \<open>The reference grammar: first and last characters\<close>

lemma reference_formula_last:
  "reference_formula s \<Longrightarrow> s \<noteq> [] \<and> (variable_char (last s) \<or> last s = CHR '')'')"
  by (induction rule: reference_formula.induct) auto

lemma reference_formula_hd:
  "reference_formula s \<Longrightarrow>
     s \<noteq> [] \<and> (variable_char (hd s) \<or> hd s = CHR ''('' \<or> hd s = CHR ''~'')"
  by (induction rule: reference_formula.induct) (auto simp: hd_append)

lemma reference_formula_shape:
  "reference_formula s \<Longrightarrow>
     (\<exists>c. s = [c]) \<or> (\<exists>t. s = CHR ''~'' # t) \<or>
     (\<exists>l c r. s = l @ c # r \<and> reference_formula l \<and> operator_char c \<and> reference_formula r) \<or>
     (\<exists>t. s = CHR ''('' # t @ '')'' \<and> reference_formula t)"
  by (induction rule: reference_formula.induct) blast+

lemma operand_missing_not_formula: "\<not> reference_formula ''(A+)''"
proof
  assume "reference_formula ''(A+)''"
  from reference_formula_shape[OF this]
  consider (Binary) l c r where "''(A+)'' = l @ c # r" "reference_formula l"
      "operator_char c" "reference_formula r"
    | (Group) t where "''(A+)'' = CHR ''('' # t @ '')''" "reference_formula t"
    by auto
  then show False
  proof cases
    case Binary
    from Binary(1) have "(l = ''('' \<and> c = CHR ''A'') \<or> (l = ''(A'' \<and> c = CHR ''+'' \<and> r = '')'')
       \<or> (l = [] \<and> c = CHR ''('') \<or> (l = ''(A+'' \<and> c = CHR '')'' \<and> r = [])"
      by (auto simp: append_eq_Cons_conv Cons_eq_append_conv)
    with Binary(3) reference_formula_hd[OF Binary(4)] reference_formula_last[OF Binary(2)]
    show False
      by (auto simp: operator_char_def variable_char_def)
  next
    case Group
    then have "t = ''A+''" by simp
    with reference_formula_last[OF Group(2)] show False by (simp add: variable_char_def)
  qed
qed

section \<open>The notebook's own examples\<close>

text \<open>Entries of the notebook's test dictionary for \<^verbatim>\<open>is_well_formed\<close>, and the argument of
  its example cell, which printed "The inputted argument is not valid.".\<close>

lemma is_well_formed_tests:
  "is_well_formed ''A+B&C'' = Inr True"
  "is_well_formed ''(A+B)(C+D)'' = Inr False"
  "is_well_formed [] = Inr False"
  "is_well_formed ''A B'' = Inr False"
  "is_well_formed ''A&~'' = Inr False"
  "is_well_formed ''A^B&C+D>E'' = Inr True"
  by code_simp+

lemma check_user_argument_example:
  "check_user_argument [''(A>B)>(~A+B)'', ''A''] ''~A+B''
     = Inr (False, ''The inputted argument is not valid.'')"
  by code_simp

section \<open>\<^verbatim>\<open>is_well_formed\<close> raises no error\<close>

lemma scan_token_no_error:
  "token = ''~'' \<longrightarrow> i + 1 < length tokens \<Longrightarrow>
     scan_token tokens i token last_token stack \<noteq> Inl e"
  by (simp add: scan_token.simps index_def)

lemma scan_no_error:
  "rest = drop i tokens \<Longrightarrow> tokens \<noteq> [] \<Longrightarrow> last tokens \<noteq> ''~'' \<Longrightarrow>
     scan tokens i rest last_token stack \<noteq> Inl e"
proof (induction rest arbitrary: i last_token stack)
  case Nil
  then show ?case by simp
next
  case (Cons token rest)
  from Cons.prems(1) have i: "i < length tokens"
    by (metis drop_all list.distinct(1) not_le)
  with Cons.prems(1) have token: "token = tokens ! i" and rest: "rest = drop (Suc i) tokens"
    by (simp_all add: Cons_nth_drop_Suc[symmetric])
  have "token = ''~'' \<longrightarrow> i + 1 < length tokens"
  proof
    assume neg: "token = ''~''"
    show "i + 1 < length tokens"
    proof (rule ccontr)
      assume "\<not> i + 1 < length tokens"
      with i have "i = length tokens - 1" by simp
      with token Cons.prems(2) have "token = last tokens" by (simp add: last_conv_nth)
      with neg Cons.prems(3) show False by simp
    qed
  qed
  from scan_token_no_error[OF this]
  have no_error: "scan_token tokens i token last_token stack \<noteq> Inl e" for e .
  show ?case
  proof (cases "scan_token tokens i token last_token stack")
    case (Inl e')
    with no_error show ?thesis by simp
  next
    case (Inr r)
    show ?thesis
    proof (cases r)
      case None
      with Inr show ?thesis by simp
    next
      case (Some stack')
      from Cons.IH[of "Suc i" token stack'] rest Cons.prems(2,3)
      have "scan tokens (Suc i) rest token stack' \<noteq> Inl e" by blast
      with Inr Some show ?thesis by simp
    qed
  qed
qed

lemma is_well_formed_no_error: "is_well_formed statement \<noteq> Inl e"
proof -
  let ?tokens = "tokenize statement"
  show ?thesis
  proof (cases "?tokens \<noteq> [] \<and> (fullmatch_variable (last ?tokens) \<or> last ?tokens = '')'')")
    case True
    then have "last ?tokens \<noteq> ''~''" by auto
    from scan_no_error[of ?tokens 0 ?tokens, OF _ _ this] True
    have "scan ?tokens 0 ?tokens [] [] \<noteq> Inl e" by auto
    then show ?thesis by (simp add: is_well_formed_def Let_def)
  next
    case False
    then show ?thesis by (auto simp add: is_well_formed_def Let_def)
  qed
qed

lemma is_well_formed_total: "is_well_formed statement = Inr True \<or> is_well_formed statement = Inr False"
  using is_well_formed_no_error[of statement] by (cases "is_well_formed statement") auto

text \<open>
  Claim C9: for every input string, \<^verbatim>\<open>is_well_formed\<close> returns a boolean and raises no
  error; the loop is a structural recursion over the token list, and the look-ahead
  \<^verbatim>\<open>tokens[i+1]\<close> of the negation case, the only read that could leave the list, is
  never reached at the last token, which the boundary test has shown to be a variable or a
  closing parenthesis. The empty string, strings with unmatched parentheses and strings
  with unrecognized characters give false.
\<close>

theorem C9_is_well_formed_total:
  "(\<exists>b. is_well_formed statement = Inr b) \<and>
   is_well_formed [] = Inr False \<and> is_well_formed ''(A+B))'' = Inr False \<and>
   is_well_formed ''A+(B&C'' = Inr False \<and> is_well_formed ''a$ b'' = Inr False"
proof -
  have "is_well_formed [] = Inr False" "is_well_formed ''(A+B))'' = Inr False"
    "is_well_formed ''A+(B&C'' = Inr False" "is_well_formed ''a$ b'' = Inr False"
    by code_simp+
  moreover have "\<exists>b. is_well_formed statement = Inr b"
    using is_well_formed_total[of statement] by blast
  ultimately show ?thesis by simp
qed

section \<open>Well-formedness against the reference grammar\<close>

text \<open>
  Every formula of the reference grammar is accepted. The scan passes over a formula that
  stands in a statement between an admissible left and right context, and leaves the
  parenthesis stack as it found it; the proof is by induction on the grammar, one step
  lemma for each kind of token.
\<close>

lemma reference_formula_valid: "reference_formula s \<Longrightarrow> list_all valid_char s"
  by (induction rule: reference_formula.induct) (simp_all add: valid_char_def)

lemma variable_char_neq:
  "variable_char c \<Longrightarrow> c \<noteq> CHR ''('' \<and> c \<noteq> CHR '')'' \<and> c \<noteq> CHR ''~''"
  by auto

lemma operator_char_neq:
  "operator_char c \<Longrightarrow> c \<noteq> CHR ''('' \<and> c \<noteq> CHR '')'' \<and> c \<noteq> CHR ''~''"
  by auto

lemma left_context_cases:
  "left_context pre last_token \<Longrightarrow>
     (length pre = 0 \<and> last_token = []) \<or> fullmatch_operator last_token
     \<or> last_token = ''('' \<or> last_token = ''~''"
  unfolding left_context_def by (elim disjE conjE) simp_all

lemma left_context_not_variable: "left_context pre last_token \<Longrightarrow> \<not> fullmatch_variable last_token"
  using variable_not_operator[of "last pre"]
  unfolding left_context_def by (elim disjE conjE) auto

lemma scan_token_variable:
  "variable_char c \<Longrightarrow> \<not> fullmatch_variable last_token \<Longrightarrow>
     scan_token tokens i [c] last_token stack = Inr (Some stack)"
  using variable_char_neq[of c] by (simp add: scan_token.simps)

lemma scan_token_negation_ok:
  "(i = 0 \<and> last_token = []) \<or> fullmatch_operator last_token
     \<or> last_token = ''('' \<or> last_token = ''~'' \<Longrightarrow> i + 1 < length tokens \<Longrightarrow>
     scan_token tokens i ''~'' last_token stack = Inr (Some stack)"
  by (elim disjE conjE) (simp_all add: scan_token.simps index_def)

lemma scan_token_operator:
  "operator_char c \<Longrightarrow> variable_char x \<or> x = CHR '')'' \<Longrightarrow>
     scan_token tokens i [c] [x] stack = Inr (Some stack)"
  using operator_char_neq[of c] variable_not_operator[of c] variable_not_operator[of x]
  by (auto simp add: scan_token.simps)

lemma scan_token_open:
  "scan_token tokens i ''('' last_token stack = Inr (Some (''('' # stack))"
  by (simp add: scan_token.simps)

lemma sublist_follow_iff:
  "sublist [c] ''&+>^=)'' \<longleftrightarrow> operator_char c \<or> c = CHR '')''"
  unfolding operator_char_def by (simp add: sublist_Cons_right)

lemma scan_token_close:
  "variable_char x \<or> x = CHR '')'' \<Longrightarrow>
   i + 1 < length tokens \<longrightarrow> tokens ! (i + 1) = [c] \<and> (operator_char c \<or> c = CHR '')'') \<Longrightarrow>
     scan_token tokens i '')'' [x] (t # stack) = Inr (Some stack)"
  by (auto simp add: scan_token.simps sublist_follow_iff)

lemma scan_formula:
  "reference_formula s \<Longrightarrow> tokens = map (\<lambda>c. [c]) (pre @ s @ post) \<Longrightarrow>
   left_context pre last_token \<Longrightarrow> right_context post \<Longrightarrow>
     scan tokens (length pre) (map (\<lambda>c. [c]) (s @ post)) last_token stack
       = scan tokens (length pre + length s) (map (\<lambda>c. [c]) post) [last s] stack"
proof (induction arbitrary: pre post last_token stack rule: reference_formula.induct)
  case (Variable c)
  from scan_token_variable[OF Variable.hyps left_context_not_variable[OF Variable.prems(2)]]
  show ?case by simp
next
  case (Negation s)
  note s = reference_formula_last[OF Negation.hyps]
  from Negation.prems(1) s have "length pre + 1 < length tokens" by simp
  with left_context_cases[OF Negation.prems(2)]
  have step: "scan_token tokens (length pre) ''~'' last_token stack = Inr (Some stack)"
    by (intro scan_token_negation_ok) simp_all
  have "left_context (pre @ ''~'') ''~''" by (simp add: left_context_def)
  from Negation.IH[of "pre @ ''~''" post "''~''" stack, OF _ this Negation.prems(3)] Negation.prems(1)
  have "scan tokens (Suc (length pre)) (map (\<lambda>c. [c]) (s @ post)) ''~'' stack
       = scan tokens (Suc (length pre) + length s) (map (\<lambda>c. [c]) post) [last s] stack"
    by simp
  with step s show ?case by simp
next
  case (Binary l c r)
  note l = reference_formula_last[OF Binary.hyps(1)]
  note r = reference_formula_last[OF Binary.hyps(3)]
  have rc: "right_context (c # r @ post)" using Binary.hyps(2) by (simp add: right_context_def)
  from Binary.IH(1)[of pre "c # r @ post" last_token stack, OF _ Binary.prems(2) rc] Binary.prems(1)
  have 1: "scan tokens (length pre) (map (\<lambda>c. [c]) (l @ c # r @ post)) last_token stack
     = scan tokens (length pre + length l) (map (\<lambda>c. [c]) (c # r @ post)) [last l] stack"
    by simp
  from l have "variable_char (last l) \<or> last l = CHR '')''" by simp
  from scan_token_operator[OF Binary.hyps(2) this]
  have step: "scan_token tokens (length pre + length l) [c] [last l] stack = Inr (Some stack)" .
  have lc: "left_context (pre @ l @ [c]) [c]" using Binary.hyps(2) by (simp add: left_context_def)
  from Binary.IH(2)[of "pre @ l @ [c]" post "[c]" stack, OF _ lc Binary.prems(3)] Binary.prems(1)
  have 2: "scan tokens (Suc (length pre + length l)) (map (\<lambda>c. [c]) (r @ post)) [c] stack
     = scan tokens (Suc (length pre + length l) + length r) (map (\<lambda>c. [c]) post) [last r] stack"
    by simp
  from 1 step 2 r show ?case by (simp add: add.assoc)
next
  case (Group s)
  note s = reference_formula_last[OF Group.hyps]
  have lc: "left_context (pre @ ''('') ''(''" by (simp add: left_context_def)
  have rc: "right_context ('')'' @ post)" by (simp add: right_context_def)
  from Group.IH[of "pre @ ''(''" "'')'' @ post" "''(''" "''('' # stack", OF _ lc rc] Group.prems(1)
  have inner: "scan tokens (Suc (length pre)) (map (\<lambda>c. [c]) (s @ '')'' @ post)) ''('' (''('' # stack)
     = scan tokens (Suc (length pre) + length s) (map (\<lambda>c. [c]) ('')'' @ post)) [last s] (''('' # stack)"
    by simp
  have nth: "Suc (length pre) + length s + 1 < length tokens \<longrightarrow>
      tokens ! (Suc (length pre) + length s + 1) = [hd post] \<and> (operator_char (hd post) \<or> hd post = CHR '')'')"
  proof
    assume "Suc (length pre) + length s + 1 < length tokens"
    with Group.prems(1) have post: "post \<noteq> []" by auto
    then have len: "Suc (length pre) + length s + 1 < length (pre @ (CHR ''('' # s @ '')'') @ post)"
      by simp
    have "tokens ! (Suc (length pre) + length s + 1)
        = [(pre @ (CHR ''('' # s @ '')'') @ post) ! (Suc (length pre) + length s + 1)]"
      unfolding Group.prems(1) using len by (rule nth_map)
    also have "(pre @ (CHR ''('' # s @ '')'') @ post) ! (Suc (length pre) + length s + 1) = hd post"
      using post by (simp add: nth_append hd_conv_nth)
    finally have "tokens ! (Suc (length pre) + length s + 1) = [hd post]" .
    with Group.prems(3) post
    show "tokens ! (Suc (length pre) + length s + 1) = [hd post] \<and> (operator_char (hd post) \<or> hd post = CHR '')'')"
      by (simp add: right_context_def)
  qed
  from s have "variable_char (last s) \<or> last s = CHR '')''" by simp
  from scan_token_close[OF this nth]
  have close_step: "scan_token tokens (Suc (length pre) + length s) '')'' [last s] (''('' # stack)
      = Inr (Some stack)" .
  from inner close_step show ?case by (simp add: scan_token_open)
qed

lemma reference_formula_accepted: "reference_formula s \<Longrightarrow> is_well_formed s = Inr True"
proof -
  assume f: "reference_formula s"
  from reference_formula_valid[OF f] have "filter valid_char s = s" by (simp add: list_all_iff)
  then have tokens: "tokenize s = map (\<lambda>c. [c]) s" by (simp add: tokenize_def)
  from scan_formula[OF f, of "tokenize s" "[]" "[]" "[]" "[]"] tokens
  have scan: "scan (map (\<lambda>c. [c]) s) 0 (map (\<lambda>c. [c]) s) [] [] = Inr True"
    by (simp add: left_context_def right_context_def)
  from reference_formula_hd[OF f] reference_formula_last[OF f]
  have "s \<noteq> []" "variable_char (hd s) \<or> hd s = CHR ''('' \<or> hd s = CHR ''~''"
    "variable_char (last s) \<or> last s = CHR '')''" by auto
  with scan show ?thesis
    unfolding is_well_formed_def tokens
    by (auto simp: Let_def concat_singletons hd_conv_nth[symmetric] last_map hd_map)
qed

text \<open>
  Claim C1 says that \<^verbatim>\<open>is_well_formed\<close> returns true exactly for the strings of the
  reference grammar, with no missing operand or operator. The code accepts
  \<^verbatim>\<open>(A+)\<close>, whose connective has no right operand and which is no formula of the
  grammar: only the last token of the whole statement is checked against ending in an
  operator, and the closing parenthesis does not look at the operator before it.
\<close>

theorem C1_accepts_missing_operand:
  "is_well_formed ''(A+)'' = Inr True \<and> \<not> reference_formula ''(A+)''"
proof -
  have "is_well_formed ''(A+)'' = Inr True" by code_simp
  then show ?thesis using operand_missing_not_formula by simp
qed

text \<open>
  Claim C10: \<^verbatim>\<open>is_well_formed("A(B)")\<close> returns true. In the scan an opening parenthesis
  only pushes the parenthesis stack, whatever the token before it, the position and the
  stack are, so a variable directly followed by a parenthesized group is accepted.
\<close>

theorem C10_variable_then_group_accepted:
  "is_well_formed ''A(B)'' = Inr True \<and>
   scan_token tokens i ''('' last_token stack = Inr (Some (''('' # stack))"
proof -
  have "is_well_formed ''A(B)'' = Inr True" by code_simp
  then show ?thesis by (simp add: scan_token.simps)
qed

section \<open>Evaluation of consecutive negations\<close>

text \<open>
  Claim C2 says that \<^verbatim>\<open>evaluate_statement\<close> returns a boolean, without error, on every
  statement \<^verbatim>\<open>is_well_formed\<close> accepts when the assignment covers its variables. On
  \<^verbatim>\<open>~~A\<close>, which \<^verbatim>\<open>is_well_formed\<close> accepts, the second negation pops the first one
  to the output (its precedence is not smaller), the postfix form is \<^verbatim>\<open>~ A ~\<close>, and the
  value stack is empty when the first negation pops it: IndexError.
\<close>

theorem C2_double_negation_raises:
  "is_well_formed ''~~A'' = Inr True \<and>
   to_postfix (tokenize ''~~A'') [] [] = Inr [''~'', ''A'', ''~''] \<and>
   evaluate_statement ''~~A'' [''A'' \<mapsto> True] = Inl IndexError"
  by code_simp

text \<open>
  Claim C5 says that \<^verbatim>\<open>evaluate_statement\<close> groups every well-formed formula by the
  precedence table, negation binding tightest. On \<^verbatim>\<open>B&~~A\<close> with both variables true the
  code returns false, where the grouping of the table, written out with parentheses as
  \<^verbatim>\<open>B&~(~A)\<close>, gives true: the first negation is popped to the output before its
  operand and negates \<^verbatim>\<open>B\<close>.
\<close>

theorem C5_double_negation_misgrouped:
  "to_postfix (tokenize ''B&~~A'') [] [] = Inr [''B'', ''~'', ''A'', ''~'', ''&''] \<and>
   evaluate_statement ''B&~~A'' [''A'' \<mapsto> True, ''B'' \<mapsto> True] = Inr False \<and>
   evaluate_statement ''B&~(~A)'' [''A'' \<mapsto> True, ''B'' \<mapsto> True] = Inr True"
  by code_simp

text \<open>The two formulas that claim C5 gives as examples are grouped as it says: on every
  row of the truth table the code gives them the value of the fully parenthesized form.\<close>

lemma precedence_examples:
  "list_all (\<lambda>tv. evaluate_statement ''A^B&C+D>E'' tv = evaluate_statement ''((A^((B&C)+D))>E)'' tv)
     (generate_truth_table [''A'', ''B'', ''C'', ''D'', ''E''])"
  "list_all (\<lambda>tv. evaluate_statement ''A=B=C'' tv = evaluate_statement ''((A=B)=C)'' tv)
     (generate_truth_table [''A'', ''B'', ''C''])"
  by code_simp+

section \<open>Validity\<close>

text \<open>
  The loop of \<^verbatim>\<open>check_validity\<close> with respect to \<^verbatim>\<open>evaluate_statement\<close>: the rows of
  the truth table are exactly the assignments over the variables of the argument, and the
  loop reports a row on which all premises evaluate to true and the conclusion to false.
\<close>

lemma all_premises_True_iff:
  "all_premises ps truth_values = Inr True \<longleftrightarrow>
     (\<forall>p \<in> set ps. evaluate_statement p truth_values = Inr True)"
  by (induction ps) (auto split: sum.splits)

lemma check_rows_True_iff:
  "check_rows ps conclusion truth_table = Inr True \<longleftrightarrow>
     (\<forall>truth_values \<in> set truth_table.
        (\<exists>a. all_premises ps truth_values = Inr a) \<and>
        (\<exists>b. evaluate_statement conclusion truth_values = Inr b) \<and>
        (all_premises ps truth_values = Inr True \<longrightarrow>
           evaluate_statement conclusion truth_values = Inr True))"
  by (induction truth_table) (auto split: sum.splits)

lemma set_product_bools: "set (product_bools n) = {bs. length bs = n}"
proof (induction n)
  case 0
  then show ?case by auto
next
  case (Suc n)
  show ?case
  proof (rule set_eqI)
    fix bs :: "bool list"
    show "bs \<in> set (product_bools (Suc n)) \<longleftrightarrow> bs \<in> {bs. length bs = Suc n}"
      using Suc.IH by (cases bs) (auto simp: image_iff)
  qed
qed

lemma dict_zip_distinct:
  "distinct variables \<Longrightarrow> length bs = length variables \<Longrightarrow>
     dict (zip variables bs) = map_of (zip variables bs)"
  unfolding dict_def
  by (metis distinct_rev length_rev map_fst_zip map_of_inject_set set_rev zip_rev)

text \<open>The truth table holds exactly the assignments whose keys are the variables.\<close>

lemma set_generate_truth_table:
  assumes "distinct variables"
  shows "set (generate_truth_table variables) = {truth_values. dom truth_values = set variables}"
proof (rule set_eqI, rule iffI)
  fix tv :: "token \<rightharpoonup> bool"
  assume "tv \<in> set (generate_truth_table variables)"
  then obtain bs where bs: "length bs = length variables" "tv = dict (zip variables bs)"
    by (auto simp: generate_truth_table_def set_product_bools)
  then have "dom tv = set variables"
    using assms by (simp add: dict_zip_distinct dom_map_of_zip)
  then show "tv \<in> {truth_values. dom truth_values = set variables}" by simp
next
  fix tv :: "token \<rightharpoonup> bool"
  assume "tv \<in> {truth_values. dom truth_values = set variables}"
  then have dom: "dom tv = set variables" by simp
  let ?bs = "map (\<lambda>v. the (tv v)) variables"
  have "map_of (zip variables ?bs) = tv"
  proof
    fix k
    show "map_of (zip variables ?bs) k = tv k"
    proof (cases "k \<in> set variables")
      case True
      with dom obtain b where "tv k = Some b" by auto
      with True show ?thesis
        by (simp add: map_of_zip_map)
    next
      case False
      with dom have "tv k = None" by auto
      with False show ?thesis by (simp add: map_of_zip_map)
    qed
  qed
  with assms have "tv = dict (zip variables ?bs)" by (simp add: dict_zip_distinct)
  moreover have "?bs \<in> set (product_bools (length variables))" by (simp add: set_product_bools)
  ultimately show "tv \<in> set (generate_truth_table variables)"
    unfolding generate_truth_table_def by (simp add: image_iff) blast
qed

text \<open>What \<^verbatim>\<open>check_validity\<close> decides, in terms of \<^verbatim>\<open>evaluate_statement\<close>: it returns
  true exactly when, on every assignment whose keys are the variables of the argument, the
  evaluations it makes raise no error and the conclusion is true whenever all premises
  are.\<close>

lemma check_validity_True_iff:
  "check_validity ps conclusion = Inr True \<longleftrightarrow>
     (\<forall>truth_values.
        dom truth_values = set (filter fullmatch_variable (concat (map tokenize (ps @ [conclusion]))))
        \<longrightarrow> (\<exists>a. all_premises ps truth_values = Inr a) \<and>
            (\<exists>b. evaluate_statement conclusion truth_values = Inr b) \<and>
            ((\<forall>p \<in> set ps. evaluate_statement p truth_values = Inr True) \<longrightarrow>
               evaluate_statement conclusion truth_values = Inr True))"
proof -
  define names where
    "names = filter fullmatch_variable (concat (map tokenize (ps @ [conclusion])))"
  have "distinct (sort (remdups names))" by simp
  from set_generate_truth_table[OF this]
  have table: "set (generate_truth_table (sort (remdups names)))
      = {truth_values. dom truth_values = set names}"
    by simp
  have eq: "check_validity ps conclusion
      = check_rows ps conclusion (generate_truth_table (sort (remdups names)))"
    by (simp only: check_validity_def Let_def names_def)
  show ?thesis
    unfolding names_def[symmetric] eq check_rows_True_iff table all_premises_True_iff
    by simp
qed


text \<open>
  Claim C3 says that \<^verbatim>\<open>check_validity\<close> returns true exactly when every assignment that
  makes the premises true makes the conclusion true. The premise \<^verbatim>\<open>A\<close> entails
  \<^verbatim>\<open>B+~~A\<close>, and the code returns false: on the row where both variables are true it
  evaluates the conclusion as (not B) or (not A).
\<close>

theorem C3_valid_argument_rejected:
  "is_well_formed ''A'' = Inr True \<and> is_well_formed ''B+~~A'' = Inr True \<and>
   evaluate_statement ''B+~~A'' [''A'' \<mapsto> True, ''B'' \<mapsto> True] = Inr False \<and>
   check_validity [''A''] ''B+~~A'' = Inr False"
  by code_simp

text \<open>The example of claim C3, modus ponens, is valid for the code.\<close>

lemma modus_ponens_valid: "check_validity [''A>B'', ''A''] ''B'' = Inr True"
  by code_simp

text \<open>
  Claim C6 says that \<^verbatim>\<open>check_validity\<close> returns true whenever the premises are jointly
  unsatisfiable, for any well-formed conclusion. With the premises \<^verbatim>\<open>A\<close> and \<^verbatim>\<open>~A\<close>
  and the conclusion \<^verbatim>\<open>~~B\<close>, which \<^verbatim>\<open>is_well_formed\<close> accepts, the conclusion is
  evaluated on the first row although the premises are false there, and the evaluation
  raises IndexError.
\<close>

theorem C6_contradictory_premises_raise:
  "is_well_formed ''~~B'' = Inr True \<and>
   check_validity [''A'', ''~A''] ''~~B'' = Inl IndexError"
  by code_simp

text \<open>The two examples of claim C6 hold for the code.\<close>

lemma vacuous_and_tautology_examples:
  "check_validity [''A'', ''~A''] ''B'' = Inr True"
  "check_validity [] ''A+~A'' = Inr True"
  by code_simp+

section \<open>Placement of negations\<close>

text \<open>
  The scan against the rules by position. One iteration of the loop passes exactly when the
  rule of its token holds, and then leaves as many opening parentheses on the stack as are
  pending after the token; the loop from a position on returns true exactly when the rules
  hold from there on and no parenthesis is left pending.
\<close>

lemma depth_take_Suc:
  "i < length s \<Longrightarrow> depth (take (Suc i) s) = depth (take i s) +
     (if s ! i = CHR ''('' then 1 else if s ! i = CHR '')'' then - 1 else 0)"
  by (simp add: depth_def take_Suc_conv_app_nth)

lemma depth_Nil [simp]: "depth [] = 0"
  by (simp add: depth_def)

lemma previous_token_simps:
  "previous_token s i = ''('' \<longleftrightarrow> 0 < i \<and> s ! (i - 1) = CHR ''(''"
  "previous_token s i = ''~'' \<longleftrightarrow> 0 < i \<and> s ! (i - 1) = CHR ''~''"
  "fullmatch_variable (previous_token s i) \<longleftrightarrow> 0 < i \<and> variable_char (s ! (i - 1))"
  "fullmatch_operator (previous_token s i) \<longleftrightarrow> 0 < i \<and> operator_char (s ! (i - 1))"
  by (simp_all add: previous_token_def)

lemma scan_token_rule:
  assumes tokens: "tokens = map (\<lambda>c. [c]) s" and i: "i < length s"
    and d: "0 \<le> depth (take i s)"
    and neg: "s ! i = CHR ''~'' \<longrightarrow> Suc i < length s"
  shows "scan_token tokens i [s ! i] (previous_token s i) (replicate (nat (depth (take i s))) ''('')
     = (if token_rule s i
        then Inr (Some (replicate (nat (depth (take (Suc i) s))) ''(''))
        else Inr None)"
proof -
  let ?d = "depth (take i s)"
  have next_token: "tokens ! Suc i = [s ! Suc i]" if "Suc i < length s"
    using that tokens by simp
  have len: "length tokens = length s" using tokens by simp
  consider (lparen) "s ! i = CHR ''(''" | (rparen) "s ! i = CHR '')''"
    | (negation) "s ! i = CHR ''~''"
    | (variable) "variable_char (s ! i)" | (operator) "operator_char (s ! i)"
    | (other) "s ! i \<noteq> CHR ''(''" "s ! i \<noteq> CHR '')''" "s ! i \<noteq> CHR ''~''"
        "\<not> variable_char (s ! i)" "\<not> operator_char (s ! i)"
    by blast
  then show ?thesis
  proof cases
    case lparen
    have "replicate (nat (?d + 1)) ''('' = ''('' # replicate (nat ?d) ''(''"
      using d by (simp add: nat_add_distrib)
    with lparen i show ?thesis
      by (simp add: scan_token.simps token_rule_def other_token_rule_def depth_take_Suc)
  next
    case rparen
    have pop: "tl (replicate (nat ?d) ''('') = replicate (nat (?d - 1)) ''(''"
      using d by (cases "nat ?d") (simp_all add: nat_diff_distrib)
    have pop': "nat ?d - Suc 0 = nat (?d - 1)" using d by arith
    have empty: "replicate (nat ?d) ''('' = [] \<longleftrightarrow> \<not> 0 < ?d" by auto
    have rule: "token_rule s i \<longleftrightarrow> 0 < ?d \<and> \<not> (0 < i \<and> s ! (i - 1) = CHR ''('') \<and>
        (length s \<le> Suc i \<or> operator_char (s ! Suc i) \<or> s ! Suc i = CHR '')'')"
      using rparen by (simp add: token_rule_def other_token_rule_def)
    have code: "scan_token tokens i '')'' (previous_token s i) (replicate (nat ?d) ''('')
       = (if \<not> 0 < ?d then Inr None
          else if 0 < i \<and> s ! (i - 1) = CHR ''('' then Inr None
          else if Suc i < length s then
            (if operator_char (s ! Suc i) \<or> s ! Suc i = CHR '')''
             then Inr (Some (replicate (nat (?d - 1)) ''('')) else Inr None)
          else Inr (Some (replicate (nat (?d - 1)) ''('')))"
      by (simp add: scan_token.simps empty pop pop' previous_token_simps len next_token
          sublist_follow_iff)
    have "depth (take (Suc i) s) = ?d - 1"
      using rparen i by (simp add: depth_take_Suc)
    with rparen code rule show ?thesis by (auto simp: not_less)
  next
    case negation
    with neg have nxt: "Suc i < length s" by simp
    have rule: "token_rule s i \<longleftrightarrow> i = 0 \<or> operator_char (s ! (i - 1)) \<or> s ! (i - 1) = CHR ''(''
        \<or> s ! (i - 1) = CHR ''~'' \<or> s ! Suc i = CHR ''(''"
      using negation nxt by (simp add: token_rule_def negation_placed_def)
    have code: "scan_token tokens i ''~'' (previous_token s i) (replicate (nat ?d) ''('')
       = (if 0 < i \<and> operator_char (s ! (i - 1)) then Inr (Some (replicate (nat ?d) ''(''))
          else if i = 0 then Inr (Some (replicate (nat ?d) ''(''))
          else if s ! Suc i \<noteq> CHR ''('' \<and> \<not> (0 < i \<and> s ! (i - 1) = CHR ''~'')
                  \<and> \<not> (0 < i \<and> s ! (i - 1) = CHR ''('')
          then Inr None else Inr (Some (replicate (nat ?d) ''('')))"
      using nxt
      by (simp add: scan_token.simps previous_token_simps index_def len next_token)
    have "depth (take (Suc i) s) = ?d"
      using negation i by (simp add: depth_take_Suc)
    with negation code rule show ?thesis by auto
  next
    case variable
    then have ne: "s ! i \<noteq> CHR ''(''" "s ! i \<noteq> CHR '')''" "s ! i \<noteq> CHR ''~''" by auto
    have rule: "token_rule s i \<longleftrightarrow> \<not> (0 < i \<and> variable_char (s ! (i - 1)))"
      using variable ne by (simp add: token_rule_def other_token_rule_def)
    have code: "scan_token tokens i [s ! i] (previous_token s i) (replicate (nat ?d) ''('')
       = (if 0 < i \<and> variable_char (s ! (i - 1)) then Inr None
          else Inr (Some (replicate (nat ?d) ''('')))"
      using variable ne by (simp add: scan_token.simps previous_token_simps)
    have "depth (take (Suc i) s) = ?d"
      using ne i by (simp add: depth_take_Suc)
    with code rule show ?thesis by auto
  next
    case operator
    then have ne: "s ! i \<noteq> CHR ''(''" "s ! i \<noteq> CHR '')''" "s ! i \<noteq> CHR ''~''"
        "\<not> variable_char (s ! i)"
      using variable_not_operator by auto
    have rule: "token_rule s i \<longleftrightarrow>
        \<not> (0 < i \<and> (operator_char (s ! (i - 1)) \<or> s ! (i - 1) = CHR ''(''))"
      using operator ne by (simp add: token_rule_def other_token_rule_def)
    have code: "scan_token tokens i [s ! i] (previous_token s i) (replicate (nat ?d) ''('')
       = (if 0 < i \<and> operator_char (s ! (i - 1)) then Inr None
          else if 0 < i \<and> s ! (i - 1) = CHR ''('' then Inr None
          else Inr (Some (replicate (nat ?d) ''('')))"
      using operator ne by (simp add: scan_token.simps previous_token_simps)
    have "depth (take (Suc i) s) = ?d"
      using ne i by (simp add: depth_take_Suc)
    with code rule show ?thesis by auto
  next
    case other
    have rule: "token_rule s i" using other by (simp add: token_rule_def other_token_rule_def)
    have code: "scan_token tokens i [s ! i] (previous_token s i) (replicate (nat ?d) ''('')
       = Inr (Some (replicate (nat ?d) ''(''))"
      using other by (simp add: scan_token.simps)
    have "depth (take (Suc i) s) = ?d"
      using other i by (simp add: depth_take_Suc)
    with code rule show ?thesis by simp
  qed
qed

lemma token_rule_depth:
  "i < length s \<Longrightarrow> 0 \<le> depth (take i s) \<Longrightarrow> token_rule s i \<Longrightarrow> 0 \<le> depth (take (Suc i) s)"
  by (auto simp: depth_take_Suc token_rule_def other_token_rule_def split: if_splits)

lemma previous_token_Suc: "previous_token s (Suc i) = [s ! i]"
  by (simp add: previous_token_def)

lemma scan_rules:
  assumes tokens: "tokens = map (\<lambda>c. [c]) s" and nonempty: "s \<noteq> []"
    and last: "last s \<noteq> CHR ''~''"
  shows "i \<le> length s \<Longrightarrow> 0 \<le> depth (take i s) \<Longrightarrow>
     scan tokens i (drop i tokens) (previous_token s i) (replicate (nat (depth (take i s))) ''('')
       = Inr ((\<forall>j. i \<le> j \<and> j < length s \<longrightarrow> token_rule s j) \<and> depth s = 0)"
proof (induction "length s - i" arbitrary: i)
  case 0
  then have "i = length s" by simp
  with "0.prems"(2) tokens show ?case by auto
next
  case (Suc n)
  then have i: "i < length s" by simp
  with tokens have rest: "drop i tokens = [s ! i] # drop (Suc i) tokens"
    by (simp add: Cons_nth_drop_Suc[symmetric])
  have neg: "s ! i = CHR ''~'' \<longrightarrow> Suc i < length s"
  proof
    assume negation: "s ! i = CHR ''~''"
    show "Suc i < length s"
    proof (rule ccontr)
      assume "\<not> Suc i < length s"
      with i have "i = length s - 1" by simp
      with nonempty have "s ! i = last s" by (simp add: last_conv_nth)
      with negation last show False by simp
    qed
  qed
  note step = scan_token_rule[OF tokens i Suc.prems(2) neg]
  show ?case
  proof (cases "token_rule s i")
    case False
    with i have "\<not> (\<forall>j. i \<le> j \<and> j < length s \<longrightarrow> token_rule s j)" by blast
    with False step show ?thesis by (simp add: rest)
  next
    case True
    from token_rule_depth[OF i Suc.prems(2) True] have d: "0 \<le> depth (take (Suc i) s)" .
    from Suc.hyps(2) have "n = length s - Suc i" by simp
    from Suc.hyps(1)[OF this _ d] i
    have "scan tokens (Suc i) (drop (Suc i) tokens) [s ! i]
        (replicate (nat (depth (take (Suc i) s))) ''('')
       = Inr ((\<forall>j. Suc i \<le> j \<and> j < length s \<longrightarrow> token_rule s j) \<and> depth s = 0)"
      by (simp add: previous_token_Suc)
    moreover have "(\<forall>j. i \<le> j \<and> j < length s \<longrightarrow> token_rule s j)
        \<longleftrightarrow> (\<forall>j. Suc i \<le> j \<and> j < length s \<longrightarrow> token_rule s j)"
      using True by (metis Suc_leI le_neq_implies_less Suc_leD)
    ultimately show ?thesis using True step by (simp add: rest)
  qed
qed

lemma is_well_formed_rules:
  "is_well_formed statement =
     Inr (other_rules statement \<and>
          (\<forall>i<length statement. statement ! i = CHR ''~'' \<longrightarrow> negation_placed statement i))"
proof (cases "statement \<noteq> [] \<and> list_all valid_char statement \<and>
     (variable_char (hd statement) \<or> hd statement = CHR ''('' \<or> hd statement = CHR ''~'') \<and>
     (variable_char (last statement) \<or> last statement = CHR '')'')")
  case True
  then have valid: "filter valid_char statement = statement" by (simp add: list_all_iff)
  then have tokens: "tokenize statement = map (\<lambda>c. [c]) statement"
    by (simp add: tokenize_def)
  from True have last: "last statement \<noteq> CHR ''~''" by auto
  from True have nonempty: "statement \<noteq> []" by simp
  from scan_rules[OF tokens nonempty last, of 0]
  have scan: "scan (tokenize statement) 0 (tokenize statement) [] []
      = Inr ((\<forall>j<length statement. token_rule statement j) \<and> depth statement = 0)"
    by (simp add: previous_token_def)
  have rules: "(\<forall>j<length statement. token_rule statement j) \<longleftrightarrow>
      list_all (\<lambda>i. statement ! i = CHR ''~'' \<or> other_token_rule statement i) [0..<length statement]
      \<and> (\<forall>i<length statement. statement ! i = CHR ''~'' \<longrightarrow> negation_placed statement i)"
    unfolding list_all_iff token_rule_def by auto
  from True have boundary:
    "fullmatch_variable (tokenize statement ! 0) \<or> tokenize statement ! 0 = ''(''
       \<or> tokenize statement ! 0 = ''~''"
    "fullmatch_variable (last (tokenize statement)) \<or> last (tokenize statement) = '')''"
    unfolding tokens by (auto simp: hd_conv_nth last_map)
  have "is_well_formed statement = scan (tokenize statement) 0 (tokenize statement) [] []"
    using boundary nonempty
    by (simp add: is_well_formed_def Let_def concat_tokenize valid) (simp add: tokens)
  with scan rules True show ?thesis
    by (auto simp: other_rules_def)
next
  case False
  then have "\<not> other_rules statement" by (auto simp: other_rules_def)
  moreover have "is_well_formed statement = Inr False"
  proof (cases "concat (tokenize statement) = statement \<and> statement \<noteq> []")
    case valid: True
    then have tokens: "tokenize statement = map (\<lambda>c. [c]) statement"
      by (simp add: tokenize_all_valid)
    from valid have "list_all valid_char statement"
      by (simp add: concat_tokenize list_all_iff filter_id_conv)
    with False valid have
      "\<not> (variable_char (hd statement) \<or> hd statement = CHR ''('' \<or> hd statement = CHR ''~'')
       \<or> \<not> (variable_char (last statement) \<or> last statement = CHR '')'')"
      by blast
    with valid show ?thesis
      unfolding is_well_formed_def Let_def tokens
      by (auto simp: concat_singletons hd_conv_nth last_map)
  next
    case invalid: False
    then show ?thesis
      by (auto simp: is_well_formed_def Let_def tokenize_def)
  qed
  ultimately show ?thesis by simp
qed

text \<open>
  Claim C8, as amended: \<^verbatim>\<open>is_well_formed\<close> accepts a statement exactly when every
  negation in it stands at the very start, immediately after a binary operator, an opening
  parenthesis or another negation, or immediately before an opening parenthesis, and the
  rules for the other tokens hold; so a statement with a negation in any other place is
  rejected. \<^verbatim>\<open>~~A\<close> is accepted and \<^verbatim>\<open>A~B\<close> is rejected.
\<close>

theorem C8_negation_placement:
  "(is_well_formed statement = Inr True \<longleftrightarrow>
      other_rules statement \<and>
      (\<forall>i<length statement. statement ! i = CHR ''~'' \<longrightarrow> negation_placed statement i)) \<and>
   ((\<exists>i<length statement. statement ! i = CHR ''~'' \<and> \<not> negation_placed statement i)
      \<longrightarrow> is_well_formed statement = Inr False) \<and>
   is_well_formed ''~~A'' = Inr True \<and> is_well_formed ''A~B'' = Inr False"
proof -
  have "is_well_formed ''~~A'' = Inr True" "is_well_formed ''A~B'' = Inr False"
    by code_simp+
  then show ?thesis
    unfolding is_well_formed_rules[of statement] by auto
qed

text \<open>
  Claim C8 as it was stated, that a negation in one of the five places is accepted, fails:
  in \<^verbatim>\<open>(A)~(B)\<close> the negation stands immediately before an opening parenthesis and in
  \<^verbatim>\<open>A&~\<close> immediately after a binary operator, and both statements are rejected, the
  first by the look-ahead of the closing parenthesis before the negation, the second by the
  boundary rule. With an operator between, \<^verbatim>\<open>(A)&~(B)\<close> is accepted.
\<close>

theorem C8_negation_before_paren_rejected:
  "''(A)~(B)'' ! 3 = CHR ''~'' \<and> ''(A)~(B)'' ! 4 = CHR ''('' \<and> negation_placed ''(A)~(B)'' 3 \<and>
   is_well_formed ''(A)~(B)'' = Inr False \<and>
   ''A&~'' ! 2 = CHR ''~'' \<and> ''A&~'' ! 1 = CHR ''&'' \<and> negation_placed ''A&~'' 2 \<and>
   is_well_formed ''A&~'' = Inr False \<and>
   is_well_formed ''(A)&~(B)'' = Inr True"
proof -
  have "is_well_formed ''(A)~(B)'' = Inr False" "is_well_formed ''A&~'' = Inr False"
    "is_well_formed ''(A)&~(B)'' = Inr True"
    by code_simp+
  then show ?thesis by (simp add: negation_placed_def)
qed

text \<open>The theorem at \<^verbatim>\<open>A~(B)\<close>, which is accepted, and at \<^verbatim>\<open>A~B\<close>, which is rejected.\<close>

theorem C8_negation_placement_witness:
  "other_rules ''A~(B)'' \<and> ''A~(B)'' ! 1 = CHR ''~'' \<and> negation_placed ''A~(B)'' 1 \<and>
   is_well_formed ''A~(B)'' = Inr True \<and>
   ''A~B'' ! 1 = CHR ''~'' \<and> \<not> negation_placed ''A~B'' 1 \<and> is_well_formed ''A~B'' = Inr False"
proof -
  have rules: "other_rules ''A~(B)''" by code_simp
  have placed: "negation_placed ''A~(B)'' 1" "\<not> negation_placed ''A~B'' 1"
    by (simp_all add: negation_placed_def operator_char_def)
  have all: "\<forall>i<length ''A~(B)''. ''A~(B)'' ! i = CHR ''~'' \<longrightarrow> negation_placed ''A~(B)'' i"
  proof (intro allI impI)
    fix i assume "i < length ''A~(B)''" "''A~(B)'' ! i = CHR ''~''"
    then have "i = 1" by (auto simp: less_Suc_eq nth_Cons')
    with placed show "negation_placed ''A~(B)'' i" by simp
  qed
  have ex: "\<exists>i<length ''A~B''. ''A~B'' ! i = CHR ''~'' \<and> \<not> negation_placed ''A~B'' i"
    using placed(2) by (intro exI[of _ 1]) simp
  from C8_negation_placement[of "''A~(B)''"] rules all
  have "is_well_formed ''A~(B)'' = Inr True" by blast
  moreover from C8_negation_placement[of "''A~B''"] ex
  have "is_well_formed ''A~B'' = Inr False" by blast
  ultimately show ?thesis using rules placed by simp
qed

section \<open>\<^verbatim>\<open>check_user_argument\<close>\<close>

lemma collect_not_well_formed_eq:
  "collect_not_well_formed ps acc =
     Inr (acc @ concat (map (\<lambda>p. ''Premise '' @ p @ '' is not well-formed.'' @ [CHR 0x0A])
                 (filter (\<lambda>p. is_well_formed p = Inr False) ps)))"
proof (induction ps arbitrary: acc)
  case Nil
  then show ?case by simp
next
  case (Cons p ps)
  from is_well_formed_total[of p] show ?case
    by (auto simp: Cons.IH)
qed

lemma check_user_argument_bad_premise:
  assumes "p \<in> set premises" and "is_well_formed p = Inr False"
  shows "check_user_argument premises conclusion =
     Inr (False, concat (map (\<lambda>p. ''Premise '' @ p @ '' is not well-formed.'' @ [CHR 0x0A])
                 (filter (\<lambda>p. is_well_formed p = Inr False) premises)))"
proof -
  from assms have "filter (\<lambda>p. is_well_formed p = Inr False) premises \<noteq> []"
    by (auto simp: filter_empty_conv)
  then obtain q qs where "filter (\<lambda>p. is_well_formed p = Inr False) premises = q # qs"
    by (cases "filter (\<lambda>p. is_well_formed p = Inr False) premises") auto
  then show ?thesis
    by (simp add: check_user_argument_def collect_not_well_formed_eq)
qed

lemma check_user_argument_good_premises:
  assumes "list_all (\<lambda>p. is_well_formed p = Inr True) premises"
  shows "check_user_argument premises conclusion =
    (case is_well_formed conclusion of
       Inl e \<Rightarrow> Inl e
     | Inr well_formed \<Rightarrow>
         if \<not> well_formed then
           Inr (False, ''Conclusion '' @ conclusion @ '' is not well-formed.'' @ [CHR 0x0A])
         else
           (case check_validity premises conclusion of
              Inl e \<Rightarrow> Inl e
            | Inr argument_valid \<Rightarrow>
                Inr (argument_valid,
                     ''The inputted argument is'' @ (if argument_valid then [] else '' not'')
                       @ '' valid.'')))"
proof -
  from assms have "filter (\<lambda>p. is_well_formed p = Inr False) premises = []"
    by (auto simp: filter_empty_conv list_all_iff)
  then show ?thesis
    by (simp add: check_user_argument_def collect_not_well_formed_eq)
qed

text \<open>
  Claim C7: when at least one premise is not well-formed, \<^verbatim>\<open>check_user_argument\<close>
  returns false with one diagnostic line for every premise that is not well-formed, in
  order, whatever the validity checker would do; when all premises are well-formed and the
  conclusion is not, it returns false with the diagnostic of the conclusion; when every
  input is well-formed it returns what \<^verbatim>\<open>check_validity\<close> returns, with the verdict
  message.
\<close>

theorem C7_check_user_argument:
  "((\<exists>p \<in> set premises. is_well_formed p = Inr False) \<longrightarrow>
      check_user_argument premises conclusion =
        Inr (False, concat (map (\<lambda>p. ''Premise '' @ p @ '' is not well-formed.'' @ [CHR 0x0A])
                      (filter (\<lambda>p. is_well_formed p = Inr False) premises)))) \<and>
   (list_all (\<lambda>p. is_well_formed p = Inr True) premises \<and> is_well_formed conclusion = Inr False \<longrightarrow>
      check_user_argument premises conclusion =
        Inr (False, ''Conclusion '' @ conclusion @ '' is not well-formed.'' @ [CHR 0x0A])) \<and>
   (list_all (\<lambda>p. is_well_formed p = Inr True) premises \<and> is_well_formed conclusion = Inr True \<longrightarrow>
      check_user_argument premises conclusion =
        (case check_validity premises conclusion of
           Inl e \<Rightarrow> Inl e
         | Inr argument_valid \<Rightarrow>
             Inr (argument_valid,
                  ''The inputted argument is'' @ (if argument_valid then [] else '' not'')
                    @ '' valid.'')))"
proof (intro conjI impI)
  assume "\<exists>p \<in> set premises. is_well_formed p = Inr False"
  then show "check_user_argument premises conclusion =
        Inr (False, concat (map (\<lambda>p. ''Premise '' @ p @ '' is not well-formed.'' @ [CHR 0x0A])
                      (filter (\<lambda>p. is_well_formed p = Inr False) premises)))"
    using check_user_argument_bad_premise by blast
next
  assume "list_all (\<lambda>p. is_well_formed p = Inr True) premises \<and> is_well_formed conclusion = Inr False"
  then show "check_user_argument premises conclusion =
        Inr (False, ''Conclusion '' @ conclusion @ '' is not well-formed.'' @ [CHR 0x0A])"
    by (simp add: check_user_argument_good_premises)
next
  assume "list_all (\<lambda>p. is_well_formed p = Inr True) premises \<and> is_well_formed conclusion = Inr True"
  then show "check_user_argument premises conclusion =
        (case check_validity premises conclusion of
           Inl e \<Rightarrow> Inl e
         | Inr argument_valid \<Rightarrow>
             Inr (argument_valid,
                  ''The inputted argument is'' @ (if argument_valid then [] else '' not'')
                    @ '' valid.''))"
    by (simp add: check_user_argument_good_premises)
qed

lemma wf_examples:
  "is_well_formed ''A+'' = Inr False" "is_well_formed ''A'' = Inr True"
  "is_well_formed ''+B'' = Inr False" "is_well_formed ''A>B'' = Inr True"
  "is_well_formed ''B'' = Inr True" "is_well_formed ''B)'' = Inr False"
  by code_simp+

text \<open>The theorem at three arguments, one for each of its cases.\<close>

theorem C7_check_user_argument_witness:
  "(\<exists>p \<in> set [''A+'', ''A'', ''+B'']. is_well_formed p = Inr False) \<and>
   check_user_argument [''A+'', ''A'', ''+B''] ''B'' =
     Inr (False, ''Premise A+ is not well-formed.'' @ [CHR 0x0A]
                  @ ''Premise +B is not well-formed.'' @ [CHR 0x0A]) \<and>
   list_all (\<lambda>p. is_well_formed p = Inr True) [''A>B'', ''A''] \<and>
   is_well_formed ''B)'' = Inr False \<and>
   check_user_argument [''A>B'', ''A''] ''B)'' =
     Inr (False, ''Conclusion B) is not well-formed.'' @ [CHR 0x0A]) \<and>
   is_well_formed ''B'' = Inr True \<and>
   check_user_argument [''A>B'', ''A''] ''B'' = Inr (True, ''The inputted argument is valid.'')"
proof -
  have valid: "check_validity [''A>B'', ''A''] ''B'' = Inr True" by code_simp
  have bad: "\<exists>p \<in> set [''A+'', ''A'', ''+B'']. is_well_formed p = Inr False"
    by (simp add: wf_examples)
  have good: "list_all (\<lambda>p. is_well_formed p = Inr True) [''A>B'', ''A'']"
    by (simp add: wf_examples)
  from C7_check_user_argument[of "[''A+'', ''A'', ''+B'']" "''B''"] bad
  have 1: "check_user_argument [''A+'', ''A'', ''+B''] ''B'' =
     Inr (False, ''Premise A+ is not well-formed.'' @ [CHR 0x0A]
                  @ ''Premise +B is not well-formed.'' @ [CHR 0x0A])"
    by (simp add: wf_examples)
  from C7_check_user_argument[of "[''A>B'', ''A'']" "''B)''"] good
  have 2: "check_user_argument [''A>B'', ''A''] ''B)'' =
     Inr (False, ''Conclusion B) is not well-formed.'' @ [CHR 0x0A])"
    by (simp add: wf_examples)
  from C7_check_user_argument[of "[''A>B'', ''A'']" "''B''"] good
  have 3: "check_user_argument [''A>B'', ''A''] ''B'' = Inr (True, ''The inputted argument is valid.'')"
    by (simp add: wf_examples valid)
  from bad good 1 2 3 show ?thesis by (simp add: wf_examples)
qed

section \<open>The binary connectives\<close>

lemma not_variable_unassigned:
  "dom truth_values \<subseteq> Collect fullmatch_variable \<Longrightarrow> \<not> fullmatch_variable token \<Longrightarrow>
     truth_values token = None"
  by (auto simp: dom_def)

lemma eval_tokens_binary:
  assumes "dom truth_values \<subseteq> Collect fullmatch_variable"
    and "token \<in> set [''&'', ''+'', ''>'', ''^'', ''='']"
  shows "eval_tokens truth_values (token # rest) (b # a # stack) =
     eval_tokens truth_values rest (apply_operator token a b stack)"
proof -
  from assms(2) have "\<not> fullmatch_variable token" "token \<noteq> ''~''" by auto
  with not_variable_unassigned[OF assms(1)] assms(2) show ?thesis by simp
qed

lemma eval_tokens_variable:
  "truth_values token = Some v \<Longrightarrow>
     eval_tokens truth_values (token # rest) stack = eval_tokens truth_values rest (v # stack)"
  by simp

lemma to_postfix_binary:
  assumes "variable_char x" and "variable_char y" and "operator_char c"
  shows "to_postfix (tokenize [x, c, y]) [] [] = Inr [[x], [y], [c]]"
proof -
  from assms have valid: "valid_char x" "valid_char y" "valid_char c"
    by (simp_all add: valid_char_def)
  from assms(3) have c: "\<not> variable_char c" "c \<noteq> CHR ''(''" "c \<noteq> CHR '')''"
    using variable_not_operator by auto
  from assms(3) have "precedence [c] \<noteq> None"
    by (auto simp: precedence_def operator_char_def)
  then obtain p where "precedence [c] = Some p" by blast
  with valid assms(1,2) c show ?thesis
    by (simp add: tokenize_def)
qed

lemma evaluate_binary:
  assumes "variable_char x" and "variable_char y" and "operator_char c"
    and "truth_values [x] = Some a" and "truth_values [y] = Some b"
    and "dom truth_values \<subseteq> Collect fullmatch_variable"
  shows "evaluate_statement [x, c, y] truth_values = Inr (hd (apply_operator [c] a b []))"
proof -
  from assms(3) have mem: "[c] \<in> set [''&'', ''+'', ''>'', ''^'', ''='']"
    by (auto simp: operator_char_def)
  then have "apply_operator [c] a b [] \<noteq> []" by auto
  then obtain v where v: "apply_operator [c] a b [] = [v]"
    by (cases "apply_operator [c] a b []") (auto split: if_splits)
  have "eval_tokens truth_values [[x], [y], [c]] [] = eval_tokens truth_values [[y], [c]] [a]"
    using assms(4) by (rule eval_tokens_variable)
  also have "\<dots> = eval_tokens truth_values [[c]] [b, a]"
    using assms(5) by (rule eval_tokens_variable)
  also have "\<dots> = eval_tokens truth_values [] (apply_operator [c] a b [])"
    using assms(6) mem by (rule eval_tokens_binary)
  also have "\<dots> = Inr v"
    unfolding v by simp
  finally have "eval_tokens truth_values [[x], [y], [c]] [] = Inr v" .
  then show ?thesis
    unfolding evaluate_statement_def to_postfix_binary[OF assms(1-3)] v
    by (simp only: sum.case list.sel)
qed

text \<open>
  Claim C4: for an assignment whose keys are variables, \<^verbatim>\<open>evaluate_statement\<close> gives a
  statement of two assigned variables joined by a connective the value: left and right for
  \<^verbatim>\<open>&\<close>, left or right for \<^verbatim>\<open>+\<close>, (not left) or right for \<^verbatim>\<open>>\<close>, left differs from
  right for \<^verbatim>\<open>^\<close>, left equals right for \<^verbatim>\<open>=\<close>; in \<^verbatim>\<open>eval_tokens\<close> the top of the value
  stack is the right operand and the value below it the left one; and the three
  evaluations the specification lists give false, false and true.
\<close>

theorem C4_binary_connectives:
  "(variable_char x \<and> variable_char y \<and> truth_values [x] = Some a \<and> truth_values [y] = Some b
      \<and> dom truth_values \<subseteq> Collect fullmatch_variable \<longrightarrow>
        evaluate_statement [x, CHR ''&'', y] truth_values = Inr (a \<and> b) \<and>
        evaluate_statement [x, CHR ''+'', y] truth_values = Inr (a \<or> b) \<and>
        evaluate_statement [x, CHR ''>'', y] truth_values = Inr ((\<not> a) \<or> b) \<and>
        evaluate_statement [x, CHR ''^'', y] truth_values = Inr (a \<noteq> b) \<and>
        evaluate_statement [x, CHR ''='', y] truth_values = Inr (a = b)) \<and>
   (dom truth_values \<subseteq> Collect fullmatch_variable \<longrightarrow>
        eval_tokens truth_values (''&'' # rest) (r # l # stack)
          = eval_tokens truth_values rest ((l \<and> r) # stack) \<and>
        eval_tokens truth_values (''+'' # rest) (r # l # stack)
          = eval_tokens truth_values rest ((l \<or> r) # stack) \<and>
        eval_tokens truth_values (''>'' # rest) (r # l # stack)
          = eval_tokens truth_values rest (((\<not> l) \<or> r) # stack) \<and>
        eval_tokens truth_values (''^'' # rest) (r # l # stack)
          = eval_tokens truth_values rest ((l \<noteq> r) # stack) \<and>
        eval_tokens truth_values (''='' # rest) (r # l # stack)
          = eval_tokens truth_values rest ((l = r) # stack)) \<and>
   evaluate_statement ''A>(B&C)'' [''A'' \<mapsto> True, ''B'' \<mapsto> True, ''C'' \<mapsto> False] = Inr False \<and>
   evaluate_statement ''A^B'' [''A'' \<mapsto> True, ''B'' \<mapsto> True] = Inr False \<and>
   evaluate_statement ''A=B'' [''A'' \<mapsto> False, ''B'' \<mapsto> False] = Inr True"
proof -
  have examples:
    "evaluate_statement ''A>(B&C)'' [''A'' \<mapsto> True, ''B'' \<mapsto> True, ''C'' \<mapsto> False] = Inr False"
    "evaluate_statement ''A^B'' [''A'' \<mapsto> True, ''B'' \<mapsto> True] = Inr False"
    "evaluate_statement ''A=B'' [''A'' \<mapsto> False, ''B'' \<mapsto> False] = Inr True"
    by code_simp+
  have statements:
    "evaluate_statement [x, CHR ''&'', y] truth_values = Inr (a \<and> b) \<and>
     evaluate_statement [x, CHR ''+'', y] truth_values = Inr (a \<or> b) \<and>
     evaluate_statement [x, CHR ''>'', y] truth_values = Inr ((\<not> a) \<or> b) \<and>
     evaluate_statement [x, CHR ''^'', y] truth_values = Inr (a \<noteq> b) \<and>
     evaluate_statement [x, CHR ''='', y] truth_values = Inr (a = b)"
    if "variable_char x" "variable_char y" "truth_values [x] = Some a" "truth_values [y] = Some b"
      "dom truth_values \<subseteq> Collect fullmatch_variable"
    using that by (simp add: evaluate_binary)
  have steps:
    "eval_tokens truth_values (''&'' # rest) (r # l # stack)
          = eval_tokens truth_values rest ((l \<and> r) # stack) \<and>
        eval_tokens truth_values (''+'' # rest) (r # l # stack)
          = eval_tokens truth_values rest ((l \<or> r) # stack) \<and>
        eval_tokens truth_values (''>'' # rest) (r # l # stack)
          = eval_tokens truth_values rest (((\<not> l) \<or> r) # stack) \<and>
        eval_tokens truth_values (''^'' # rest) (r # l # stack)
          = eval_tokens truth_values rest ((l \<noteq> r) # stack) \<and>
        eval_tokens truth_values (''='' # rest) (r # l # stack)
          = eval_tokens truth_values rest ((l = r) # stack)"
    if "dom truth_values \<subseteq> Collect fullmatch_variable"
    using that by (simp add: eval_tokens_binary del: eval_tokens.simps)
  from examples statements steps show ?thesis by blast
qed

text \<open>The theorem at the variables \<^verbatim>\<open>A\<close> (true) and \<^verbatim>\<open>B\<close> (false).\<close>

theorem C4_binary_connectives_witness:
  "variable_char CHR ''A'' \<and> variable_char CHR ''B'' \<and>
   [''A'' \<mapsto> True, ''B'' \<mapsto> False] ''A'' = Some True \<and>
   [''A'' \<mapsto> True, ''B'' \<mapsto> False] ''B'' = Some False \<and>
   dom [''A'' \<mapsto> True, ''B'' \<mapsto> False] \<subseteq> Collect fullmatch_variable \<and>
   evaluate_statement ''A&B'' [''A'' \<mapsto> True, ''B'' \<mapsto> False] = Inr False \<and>
   evaluate_statement ''A+B'' [''A'' \<mapsto> True, ''B'' \<mapsto> False] = Inr True \<and>
   evaluate_statement ''A>B'' [''A'' \<mapsto> True, ''B'' \<mapsto> False] = Inr False \<and>
   evaluate_statement ''A^B'' [''A'' \<mapsto> True, ''B'' \<mapsto> False] = Inr True \<and>
   evaluate_statement ''A=B'' [''A'' \<mapsto> True, ''B'' \<mapsto> False] = Inr False \<and>
   eval_tokens [''A'' \<mapsto> True, ''B'' \<mapsto> False] [''>''] [False, True] = Inr False"
proof -
  have hyps: "variable_char CHR ''A''" "variable_char CHR ''B''"
    "[''A'' \<mapsto> True, ''B'' \<mapsto> False] ''A'' = Some True"
    "[''A'' \<mapsto> True, ''B'' \<mapsto> False] ''B'' = Some False"
    "dom [''A'' \<mapsto> True, ''B'' \<mapsto> False] \<subseteq> Collect fullmatch_variable"
    by (simp_all add: variable_char_def)
  from C4_binary_connectives[of "CHR ''A''" "CHR ''B''" "[''A'' \<mapsto> True, ''B'' \<mapsto> False]"
      True False "[]" False True "[]"] hyps
  show ?thesis by simp
qed

end
